theory Spec2Isabelle
  imports Main "HOL-Library.Word"
begin

section \<open>Standard-library values used by the scanner\<close>

text \<open>
  Go strings are byte sequences: \<open>string\<close>. The Unicode-aware library functions
  (\<open>strings.ToLower\<close>, \<open>strings.TrimSpace\<close>, \<open>strconv.Atoi\<close>, \<open>url.Parse\<close>,
  \<open>URL.ResolveReference\<close>, \<open>URL.String\<close>, \<open>html.Parse\<close>) are arguments of the functions
  that call them, so every theorem holds for the library's real behaviour. The
  byte-level functions below are used where a concrete input is evaluated.
\<close>

definition isUpperASCII :: "char \<Rightarrow> bool" where
  "isUpperASCII c = (65 \<le> (of_char c :: nat) \<and> (of_char c :: nat) \<le> 90)"

definition isLowerASCII :: "char \<Rightarrow> bool" where
  "isLowerASCII c = (97 \<le> (of_char c :: nat) \<and> (of_char c :: nat) \<le> 122)"

definition isDigitASCII :: "char \<Rightarrow> bool" where
  "isDigitASCII c = (48 \<le> (of_char c :: nat) \<and> (of_char c :: nat) \<le> 57)"

definition lowerByte :: "char \<Rightarrow> char" where
  "lowerByte c = (if isUpperASCII c then char_of ((of_char c :: nat) + 32) else c)"

definition upperByte :: "char \<Rightarrow> char" where
  "upperByte c = (if isLowerASCII c then char_of ((of_char c :: nat) - 32) else c)"

text \<open>\<open>strings.ToLower\<close> on a string of ASCII bytes (its fast path).\<close>

definition ascii_ToLower :: "string \<Rightarrow> string" where
  "ascii_ToLower s = map lowerByte s"

subsection \<open>\<open>net/http\<close>: headers and responses\<close>

text \<open>
  \<open>http.Header\<close> is \<open>map[string][]string\<close>. \<open>Header.Get\<close> canonicalises the key
  (\<open>textproto.CanonicalMIMEHeaderKey\<close>: a key holding a byte that is not a token byte is
  left as it is; otherwise the first letter and every letter after a hyphen are upper
  case, the others lower case) and returns the first value stored under it, or the
  empty string.
\<close>

definition validHeaderFieldByte :: "char \<Rightarrow> bool" where
  "validHeaderFieldByte c =
     (isUpperASCII c \<or> isLowerASCII c \<or> isDigitASCII c \<or>
      c \<in> set [CHR ''!'', CHR ''#'', CHR ''$'', CHR ''%'', CHR ''&'', CHR 0x27, CHR ''*'',
                CHR ''+'', CHR ''-'', CHR ''.'', CHR ''^'', CHR ''_'', CHR 0x60, CHR ''|'',
                CHR ''~''])"

fun canonicalBytes :: "bool \<Rightarrow> string \<Rightarrow> string" where
  "canonicalBytes upper [] = []"
| "canonicalBytes upper (c # cs) =
     (let c' = (if upper then upperByte c else lowerByte c)
      in c' # canonicalBytes (c' = CHR ''-'') cs)"

definition CanonicalMIMEHeaderKey :: "string \<Rightarrow> string" where
  "CanonicalMIMEHeaderKey s =
     (if list_all validHeaderFieldByte s then canonicalBytes True s else s)"

type_synonym Header = "string \<rightharpoonup> string list"

definition Header_Get :: "Header \<Rightarrow> string \<Rightarrow> string" where
  "Header_Get h key =
     (case h (CanonicalMIMEHeaderKey key) of
        None \<Rightarrow> []
      | Some [] \<Rightarrow> []
      | Some (v # _) \<Rightarrow> v)"

text \<open>The two fields of \<open>http.Response\<close> that the worker reads; \<open>ContentLength\<close> is an \<open>int64\<close>.\<close>

record Response =
  Header :: Header
  ContentLength :: "64 word"

section \<open>The HTML worker\<close>

text \<open>
  \<open>HTMLWorker.Eligible\<close>: the lowercased content type must be \<open>text/html\<close>, and the
  content length lies strictly between 0 and \<open>1024*1024\<close> (signed comparison).
\<close>

definition Eligible :: "(string \<Rightarrow> string) \<Rightarrow> Response \<Rightarrow> bool" where
  "Eligible ToLower resp =
     (let ct = Header_Get (Header resp) ''Content-type''
      in if ToLower ct \<noteq> ''text/html'' then False
         else 0 <s ContentLength resp \<and> ContentLength resp <s 1024 * 1024)"


subsection \<open>\<open>net/url\<close>, \<open>x/net/html\<close> and the logging calls\<close>

text \<open>The fields of \<open>url.URL\<close>. \<open>url.Parse\<close> returns the error's text (\<open>Inl\<close>) or the URL.\<close>

record URL =
  Scheme :: string
  Opaque :: string
  User :: "(string \<times> string option) option"
  Host :: string
  Path :: string
  RawPath :: string
  RawQuery :: string
  Fragment :: string

text \<open>
  An \<open>html.Node\<close> with its attributes; the \<open>FirstChild\<close>/\<open>NextSibling\<close> chain of a node
  is the list of its children, in order.
\<close>

datatype NodeType = ErrorNode | TextNode | DocumentNode | ElementNode | CommentNode | DoctypeNode

record Attribute =
  Namespace :: string
  Key :: string
  Val :: string

datatype Node = Node (Type: NodeType) (Data: string) (Attr: "Attribute list") (Children: "Node list")

text \<open>
  Modelled from the spec: the logging package is not among the sources. The spec has the
  core emit leveled diagnostic messages through a logging sink, so a call
  \<open>logging.Logf(level, format, args...)\<close> is recorded as its level (of the two levels
  the sources use) and its formatted message, in call order.
\<close>

datatype LogLevel = LogDebug | LogInfo

type_synonym LogEntry = "LogLevel \<times> string"

subsection \<open>\<open>HTMLWorker.GetLinks\<close>\<close>

text \<open>
  The inner loop over \<open>node.Attr\<close>: the value of the first attribute whose lowercased key
  is \<open>href\<close> is appended to \<open>links\<close>, and the loop breaks.
\<close>

fun appendHref :: "(string \<Rightarrow> string) \<Rightarrow> Attribute list \<Rightarrow> string list \<Rightarrow> string list" where
  "appendHref ToLower [] links = links"
| "appendHref ToLower (a # as) links =
     (if ToLower (Key a) = ''href'' then links @ [Val a]
      else appendHref ToLower as links)"

text \<open>
  The closure \<open>handleNode\<close>, with the captured slice \<open>links\<close> passed through;
  \<open>handleSiblings\<close> is its loop \<open>for n := node.FirstChild; n != nil; n = n.NextSibling\<close>.
\<close>

fun handleNode :: "(string \<Rightarrow> string) \<Rightarrow> Node \<Rightarrow> string list \<Rightarrow> string list"
  and handleSiblings :: "(string \<Rightarrow> string) \<Rightarrow> Node list \<Rightarrow> string list \<Rightarrow> string list" where
  "handleNode ToLower (Node ty dat attrs cs) links =
     handleSiblings ToLower cs
       (if ty = ElementNode then
          (if ToLower dat = ''a'' then appendHref ToLower attrs links else links)
        else links)"
| "handleSiblings ToLower [] links = links"
| "handleSiblings ToLower (n # ns) links =
     handleSiblings ToLower ns (handleNode ToLower n links)"

text \<open>
  Modelled from the spec: \<open>util.DedupeStrings\<close> is not among the sources. The spec says
  of the link results that the output is de-duplicated, a set of strings where only
  distinctness matters and the order is irrelevant. The model keeps the first occurrence
  of every string; the theorems below use only the members and their distinctness.
\<close>

fun dedupeFrom :: "string list \<Rightarrow> string list \<Rightarrow> string list" where
  "dedupeFrom seen [] = []"
| "dedupeFrom seen (v # vs) =
     (if v \<in> set seen then dedupeFrom seen vs else v # dedupeFrom (v # seen) vs)"

text \<open>
  Modelled from the spec: \<open>util.DedupeStrings\<close> (not among the sources) de-duplicates its
  argument, here by going through it with nothing seen yet.
\<close>

definition DedupeStrings :: "string list \<Rightarrow> string list" where
  "DedupeStrings s = dedupeFrom [] s"

text \<open>
  \<open>GetLinks\<close> returns the links and the log calls it made. \<open>html.Parse\<close> is an argument:
  it returns the error's text or the root of the tree. The \<open>nil\<close> slice is the empty list.
\<close>

definition GetLinks ::
  "('r \<Rightarrow> string + Node) \<Rightarrow> (string \<Rightarrow> string) \<Rightarrow> 'r \<Rightarrow> string list \<times> LogEntry list" where
  "GetLinks html_Parse ToLower body =
     (case html_Parse body of
        Inl err \<Rightarrow> ([], [(LogInfo, ''Unable to parse HTML document: '' @ err)])
      | Inr tree \<Rightarrow> (DedupeStrings (handleNode ToLower tree []), []))"

subsection \<open>\<open>HTMLWorker.Handle\<close>\<close>

text \<open>
  The loop over \<open>links\<close>: a link that \<open>url.Parse\<close> rejects is logged and skipped
  (\<open>continue\<close>), any other is resolved against \<open>URL\<close> and appended to \<open>foundURLs\<close>.
\<close>

fun resolveLinks ::
  "(string \<Rightarrow> string + URL) \<Rightarrow> (URL \<Rightarrow> URL \<Rightarrow> URL) \<Rightarrow> URL \<Rightarrow> string list \<Rightarrow>
   URL list \<times> LogEntry list \<Rightarrow> URL list \<times> LogEntry list" where
  "resolveLinks url_Parse ResolveReference base [] (foundURLs, log) = (foundURLs, log)"
| "resolveLinks url_Parse ResolveReference base (l # ls) (foundURLs, log) =
     (case url_Parse l of
        Inl err \<Rightarrow>
          resolveLinks url_Parse ResolveReference base ls
            (foundURLs, log @ [(LogInfo, ''Error parsing URL ('' @ l @ ''): '' @ err)])
      | Inr u \<Rightarrow>
          resolveLinks url_Parse ResolveReference base ls
            (foundURLs @ [ResolveReference base u], log))"

text \<open>
  The worker's \<open>adder\<close> is a callback that changes the work queue: a function from the
  URLs it is given to a change of the queue's state \<open>'q\<close>. \<open>Handle\<close> returns the state
  after its call of the adder, and the log calls.
\<close>

definition Handle ::
  "('r \<Rightarrow> string + Node) \<Rightarrow> (string \<Rightarrow> string) \<Rightarrow> (string \<Rightarrow> string + URL) \<Rightarrow>
   (URL \<Rightarrow> URL \<Rightarrow> URL) \<Rightarrow> (URL list \<Rightarrow> 'q \<Rightarrow> 'q) \<Rightarrow> URL \<Rightarrow> 'r \<Rightarrow> 'q \<Rightarrow> 'q \<times> LogEntry list" where
  "Handle html_Parse ToLower url_Parse ResolveReference adder base body q =
     (case GetLinks html_Parse ToLower body of
        (links, log0) \<Rightarrow>
          (case resolveLinks url_Parse ResolveReference base links ([], log0) of
             (foundURLs, log1) \<Rightarrow> (adder foundURLs q, log1)))"

text \<open>The nodes of a tree in document order, and the link an anchor contributes.\<close>

fun nodes :: "Node \<Rightarrow> Node list" where
  "nodes (Node ty dat attrs cs) = Node ty dat attrs cs # concat (map nodes cs)"

definition isAnchor :: "(string \<Rightarrow> string) \<Rightarrow> Node \<Rightarrow> bool" where
  "isAnchor ToLower n = (Type n = ElementNode \<and> ToLower (Data n) = ''a'')"

definition isHrefOf :: "(string \<Rightarrow> string) \<Rightarrow> Node \<Rightarrow> string \<Rightarrow> bool" where
  "isHrefOf ToLower n v =
     (\<exists>i < length (Attr n). ToLower (Key (Attr n ! i)) = ''href'' \<and> Val (Attr n ! i) = v \<and>
        (\<forall>j < i. ToLower (Key (Attr n ! j)) \<noteq> ''href''))"

text \<open>The links that parse, and the log call for one that does not.\<close>

definition parsedLinks :: "(string \<Rightarrow> string + URL) \<Rightarrow> string list \<Rightarrow> URL list" where
  "parsedLinks url_Parse links =
     concat (map (\<lambda>l. case url_Parse l of Inl err \<Rightarrow> [] | Inr u \<Rightarrow> [u]) links)"

definition parseErrors :: "(string \<Rightarrow> string + URL) \<Rightarrow> string list \<Rightarrow> LogEntry list" where
  "parseErrors url_Parse links =
     concat (map (\<lambda>l. case url_Parse l of
                         Inl err \<Rightarrow> [(LogInfo, ''Error parsing URL ('' @ l @ ''): '' @ err)]
                       | Inr u \<Rightarrow> []) links)"

text \<open>
  What \<open>appendHref\<close> adds for one attribute list, and what \<open>handleNode\<close> adds for one
  node: nothing unless the node is an anchor.
\<close>

definition firstHref :: "(string \<Rightarrow> string) \<Rightarrow> Attribute list \<Rightarrow> string list" where
  "firstHref ToLower attrs =
     (case find (\<lambda>a. ToLower (Key a) = ''href'') attrs of None \<Rightarrow> [] | Some a \<Rightarrow> [Val a])"

definition anchorLinks :: "(string \<Rightarrow> string) \<Rightarrow> Node \<Rightarrow> string list" where
  "anchorLinks ToLower n = (if isAnchor ToLower n then firstHref ToLower (Attr n) else [])"

subsection \<open>A concrete document\<close>

text \<open>
  A small document tree and stand-ins for the parsers, used where the theorems are
  evaluated at a concrete input: the second anchor repeats the first link and carries a
  second \<open>href\<close>, the third has no \<open>href\<close>, the paragraph is not an anchor, and the
  link inside it does not parse as a URL.
\<close>

definition elem :: "string \<Rightarrow> (string \<times> string) list \<Rightarrow> Node list \<Rightarrow> Node" where
  "elem tag attrs cs =
     Node ElementNode tag (map (\<lambda>(k, v). \<lparr>Namespace = [], Key = k, Val = v\<rparr>) attrs) cs"

definition sample_tree :: Node where
  "sample_tree =
     Node DocumentNode [] []
       [elem ''html'' []
          [elem ''head'' [] [],
           elem ''body'' []
             [elem ''a'' [(''href'', ''/about'')] [Node TextNode ''x'' [] []],
              elem ''a'' [(''class'', ''c''), (''href'', ''/about''), (''href'', ''/b'')] [],
              elem ''a'' [(''name'', ''n'')] [],
              elem ''p'' [(''href'', ''/p'')] [elem ''a'' [(''href'', ''%zz'')] []],
              elem ''A'' [(''HREF'', ''/c'')] []]]]"

definition sample_html_Parse :: "string \<Rightarrow> string + Node" where
  "sample_html_Parse body = (if body = ''<html>'' then Inr sample_tree else Inl ''unexpected EOF'')"

definition sample_url_Parse :: "string \<Rightarrow> string + URL" where
  "sample_url_Parse l =
     (if CHR ''%'' \<in> set l then Inl (''parse '' @ l @ '': invalid URL escape'')
      else if take 7 l = ''http://'' then
        Inr \<lparr>Scheme = ''http'', Opaque = [], User = None,
             Host = takeWhile (\<lambda>c. c \<noteq> CHR ''/'') (drop 7 l),
             Path = dropWhile (\<lambda>c. c \<noteq> CHR ''/'') (drop 7 l), RawPath = [], RawQuery = [],
             Fragment = []\<rparr>
      else Inr \<lparr>Scheme = [], Opaque = [], User = None, Host = [], Path = l, RawPath = [],
                RawQuery = [], Fragment = []\<rparr>)"

definition sample_URL_String :: "URL \<Rightarrow> string" where
  "sample_URL_String u = (if Scheme u = [] then [] else Scheme u @ ''://'') @ Host u @ Path u"

definition sample_ResolveReference :: "URL \<Rightarrow> URL \<Rightarrow> URL" where
  "sample_ResolveReference base u = base\<lparr>Path := Path u\<rparr>"

definition sample_base :: URL where
  "sample_base = \<lparr>Scheme = ''http'', Opaque = [], User = None, Host = ''example.test'',
     Path = ''/'', RawPath = [], RawQuery = [], Fragment = []\<rparr>"

definition sample_adder :: "URL list \<Rightarrow> URL list list \<Rightarrow> URL list list" where
  "sample_adder urls calls = calls @ [urls]"

section \<open>The settings package\<close>

subsection \<open>Strings, panics and the flag registry\<close>

text \<open>\<open>strings.Join\<close>, and \<open>strings.Split\<close> for a separator of one byte.\<close>

fun Join :: "string list \<Rightarrow> string \<Rightarrow> string" where
  "Join [] sep = []"
| "Join [x] sep = x"
| "Join (x # y # ys) sep = x @ sep @ Join (y # ys) sep"

fun Split :: "string \<Rightarrow> char \<Rightarrow> string list" where
  "Split [] sep = [[]]"
| "Split (c # cs) sep =
     (if c = sep then [] # Split cs sep
      else (case Split cs sep of [] \<Rightarrow> [[c]] | w # ws \<Rightarrow> (c # w) # ws))"

text \<open>A call either panics or returns.\<close>

datatype panic = FlagRedefined string | IndexOutOfRange | NilDereference

datatype 'a result = Panic panic | Returns (returned: 'a)

text \<open>
  The flags registered on \<open>flag.CommandLine\<close>, each with its name and usage text, in
  registration order. \<open>flag.Var\<close> panics when the name is registered already.
  \<open>flag.IntVar\<close>, \<open>flag.BoolVar\<close> and \<open>flag.StringVar\<close> store the default value in the
  variable and then register it.
\<close>

record Flag =
  Name :: string
  Usage :: string

record ScanSettings =
  BaseURLs :: "string list"
  Threads :: int
  Workers :: int
  ExcludePaths :: "string list"
  Proxies :: "string list"
  ParseHTML :: bool
  SleepTime :: "64 word"
  LogfilePath :: string
  LogLevel :: string
  WordlistPath :: string
  Extensions :: "string list"
  Mangle_field :: bool
  QueueSize :: int
  Timeout :: "64 word"
  OutputFormat :: string
  OutputPath :: string
  UserAgent :: string
  IncludeRedirects :: bool
  RobotsMode :: int
  AllowHTTPSUpgrade :: bool
  SpiderCodes :: "int list"
  DebugCPUProf :: bool
  configPath :: string
  flagsSet :: bool

type_synonym SettingsState = "ScanSettings \<times> Flag list"

definition flag_Var :: "string \<Rightarrow> string \<Rightarrow> SettingsState \<Rightarrow> SettingsState result" where
  "flag_Var name usage st =
     (if name \<in> set (map Name (snd st)) then Panic (FlagRedefined name)
      else Returns (fst st, snd st @ [\<lparr>Name = name, Usage = usage\<rparr>]))"

definition flag_IntVar ::
  "(int \<Rightarrow> ScanSettings \<Rightarrow> ScanSettings) \<Rightarrow> string \<Rightarrow> int \<Rightarrow> string \<Rightarrow>
   SettingsState \<Rightarrow> SettingsState result" where
  "flag_IntVar p name val usage st = flag_Var name usage (p val (fst st), snd st)"

definition flag_BoolVar ::
  "(bool \<Rightarrow> ScanSettings \<Rightarrow> ScanSettings) \<Rightarrow> string \<Rightarrow> bool \<Rightarrow> string \<Rightarrow>
   SettingsState \<Rightarrow> SettingsState result" where
  "flag_BoolVar p name val usage st = flag_Var name usage (p val (fst st), snd st)"

definition flag_StringVar ::
  "(string \<Rightarrow> ScanSettings \<Rightarrow> ScanSettings) \<Rightarrow> string \<Rightarrow> string \<Rightarrow> string \<Rightarrow>
   SettingsState \<Rightarrow> SettingsState result" where
  "flag_StringVar p name val usage st = flag_Var name usage (p val (fst st), snd st)"

fun runSteps ::
  "(SettingsState \<Rightarrow> SettingsState result) list \<Rightarrow> SettingsState \<Rightarrow> SettingsState result" where
  "runSteps [] st = Returns st"
| "runSteps (f # fs) st =
     (case f st of Panic p \<Rightarrow> Panic p | Returns st' \<Rightarrow> runSteps fs st')"

definition robotsModeStrings :: "string list" where
  "robotsModeStrings = [''ignore'', ''obey'', ''seed'']"

definition DefaultUserAgent :: string where
  "DefaultUserAgent = ''WebBorer 0.01''"

subsection \<open>\<open>ScanSettings.InitFlags\<close>\<close>

text \<open>
  \<open>runtime.NumCPU()\<close>, the package variable \<open>outputFormats\<close> and
  \<open>logging.LogLevelStrings\<close> are arguments; the state is the settings and the registry.
  \<open>flag.Var\<close> asks the value for its default text: for the robots flag that is
  \<open>robotsModeStrings[*f.mode]\<close>, which panics when \<open>RobotsMode\<close> is not an index.
\<close>

definition InitFlags ::
  "int \<Rightarrow> string list \<Rightarrow> string list \<Rightarrow> SettingsState \<Rightarrow> SettingsState result" where
  "InitFlags NumCPU outputFormats LogLevelStrings st =
     (if flagsSet (fst st) then Returns st
      else runSteps
       ([flag_Var ''url'' ''Starting `URL` & scopes.'',
         flag_IntVar (\<lambda>v s. s\<lparr>Threads := v\<rparr>) ''threads'' NumCPU
           ''Number of worker `threads`.'',
         flag_IntVar (\<lambda>v s. s\<lparr>Workers := v\<rparr>) ''workers'' (NumCPU * 2)
           ''Number of `workers`.'',
         flag_Var ''exclude'' ''List of `paths` to exclude from search.'',
         flag_BoolVar (\<lambda>v s. s\<lparr>ParseHTML := v\<rparr>) ''html'' True
           ''Parse HTML documents for links to follow.'',
         flag_BoolVar (\<lambda>v s. s\<lparr>AllowHTTPSUpgrade := v\<rparr>) ''allow-upgrade'' False
           ''Allow HTTP->HTTPS upgrades.'',
         flag_Var ''sleep'' ''Time (as `duration`) to sleep between requests.'',
         flag_StringVar (\<lambda>v s. s\<lparr>LogfilePath := v\<rparr>) ''logfile'' []
           ''Logfile `filename` (defaults to stderr)'',
         flag_StringVar (\<lambda>v s. s\<lparr>WordlistPath := v\<rparr>) ''wordlist'' []
           ''Wordlist `filename` to use (default built-in)'',
         flag_Var ''extensions'' ''List of `extensions` to mangle with.'',
         flag_BoolVar (\<lambda>v s. s\<lparr>Mangle_field := v\<rparr>) ''mangle'' True
           ''Mangle by adding extensions.'',
         flag_Var ''proxy'' ''Proxy or `proxies` to use.'',
         flag_Var ''timeout'' ''Network connection timeout (`duration`).''] @
        (if 1 < length outputFormats then
           [flag_StringVar (\<lambda>v s. s\<lparr>OutputFormat := v\<rparr>) ''format'' (outputFormats ! 0)
              (''Output `format`.  Options: ['' @ Join outputFormats '', '' @ '']'')]
         else []) @
        [flag_StringVar (\<lambda>v s. s\<lparr>OutputPath := v\<rparr>) ''outfile'' []
           ''Output `file`, defaults to stdout.'',
         (\<lambda>st'. flag_StringVar (\<lambda>v s. s\<lparr>LogLevel := v\<rparr>) ''loglevel'' (LogLevel (fst st'))
            (''Log `level`.  Options: ['' @ Join LogLevelStrings '', '' @ '']'') st'),
         flag_StringVar (\<lambda>v s. s\<lparr>UserAgent := v\<rparr>) ''user-agent'' DefaultUserAgent
           ''`User-Agent` for requests'',
         flag_BoolVar (\<lambda>v s. s\<lparr>IncludeRedirects := v\<rparr>) ''include-redirects'' False
           ''Include redirects in reports.'',
         flag_Var ''spider-codes'' ''HTTP Response Codes to Continue Spidering On.'',
         (\<lambda>st'. if 0 \<le> RobotsMode (fst st') \<and>
                   RobotsMode (fst st') < int (length robotsModeStrings)
                then flag_Var ''robots-mode''
                       (''Robots `mode`.  Options: ['' @ Join robotsModeStrings '', '' @ '']'') st'
                else Panic IndexOutOfRange),
         flag_BoolVar (\<lambda>v s. s\<lparr>DebugCPUProf := v\<rparr>) ''debug-cpuprof'' False
           ''[DEBUG] CPU Profiling'',
         (\<lambda>st'. Returns ((fst st')\<lparr>flagsSet := True\<rparr>, snd st'))]) st)"

text \<open>
  \<open>NewScanSettings\<close>: the defaults (a duration counts nanoseconds, so 30 seconds is
  \<open>30 * 1000000000\<close>; unset fields are zero values), then \<open>InitFlags\<close>.
\<close>

definition defaultSettings :: "int \<Rightarrow> ScanSettings" where
  "defaultSettings NumCPU =
     \<lparr>BaseURLs = [], Threads = NumCPU, Workers = 0, ExcludePaths = [], Proxies = [],
      ParseHTML = False, SleepTime = 0, LogfilePath = [], LogLevel = ''WARNING'',
      WordlistPath = [], Extensions = [''html'', ''php'', ''asp'', ''aspx''],
      Mangle_field = True, QueueSize = 1024, Timeout = 30 * 1000000000, OutputFormat = [],
      OutputPath = [], UserAgent = [], IncludeRedirects = False, RobotsMode = 0,
      AllowHTTPSUpgrade = False, SpiderCodes = [200], DebugCPUProf = False, configPath = [],
      flagsSet = False\<rparr>"

definition NewScanSettings ::
  "int \<Rightarrow> string list \<Rightarrow> string list \<Rightarrow> Flag list \<Rightarrow> SettingsState result" where
  "NewScanSettings NumCPU outputFormats LogLevelStrings flags =
     InitFlags NumCPU outputFormats LogLevelStrings (defaultSettings NumCPU, flags)"

subsection \<open>\<open>ScanSettings.Validate\<close>\<close>

text \<open>
  \<open>Validate\<close> returns the error (\<open>None\<close> is \<open>nil\<close>), the state it leaves and what it
  wrote to standard error; the text \<open>flag.PrintDefaults\<close> prints for a registry is an
  argument.
\<close>

definition Validate ::
  "(Flag list \<Rightarrow> string) \<Rightarrow> SettingsState \<Rightarrow> string option \<times> SettingsState \<times> string list" where
  "Validate PrintDefaults st =
     (let flagError = (\<lambda>str. (Some str, st, [''Usage:'' @ [CHR 0x0A], PrintDefaults (snd st)]))
      in if length (BaseURLs (fst st)) = 0 then flagError ''URL is required.''
         else (None, st, []))"

subsection \<open>\<open>ScanSettings.GetScopes\<close>\<close>

text \<open>
  \<open>scopes\<close> is a slice of \<open>len(BaseURLs)\<close> pointers, \<open>nil\<close> (\<open>None\<close>) at first. In each
  round \<open>scopes[i]\<close> is the pointer \<open>url.Parse\<close> returned, so setting \<open>scopes[i].Path\<close>
  changes the parsed URL itself. On an error the slice is dropped and the function
  returns the error text (\<open>Inl\<close>).
\<close>

fun GetScopes_loop ::
  "(string \<Rightarrow> string + URL) \<Rightarrow> (URL \<Rightarrow> string) \<Rightarrow> nat \<Rightarrow> string list \<Rightarrow>
   URL option list \<Rightarrow> LogEntry list \<Rightarrow> (string + URL option list) \<times> LogEntry list" where
  "GetScopes_loop url_Parse URL_String i [] scopes log = (Inr scopes, log)"
| "GetScopes_loop url_Parse URL_String i (baseURL # rest) scopes log =
     (case url_Parse baseURL of
        Inl err \<Rightarrow> (Inl (''Unable to parse BaseURL ('' @ baseURL @ ''): '' @ err), log)
      | Inr parsed \<Rightarrow>
          (let scope = (if Path parsed = [] then parsed\<lparr>Path := ''/''\<rparr> else parsed)
           in GetScopes_loop url_Parse URL_String (Suc i) rest (scopes[i := Some scope])
                (log @ [(LogDebug, ''Added BaseURL: '' @ URL_String scope)])))"

definition GetScopes ::
  "(string \<Rightarrow> string + URL) \<Rightarrow> (URL \<Rightarrow> string) \<Rightarrow> ScanSettings \<Rightarrow>
   (string + URL option list) \<times> LogEntry list" where
  "GetScopes url_Parse URL_String settings =
     GetScopes_loop url_Parse URL_String 0 (BaseURLs settings)
       (replicate (length (BaseURLs settings)) None) []"

text \<open>The scope a base URL yields once parsed.\<close>

definition scopeOf :: "(string \<Rightarrow> string + URL) \<Rightarrow> string \<Rightarrow> URL option" where
  "scopeOf url_Parse baseURL =
     (case url_Parse baseURL of
        Inl err \<Rightarrow> None
      | Inr u \<Rightarrow> Some (if Path u = [] then u\<lparr>Path := ''/''\<rparr> else u))"

subsection \<open>\<open>IntSliceFlag.Set\<close>\<close>

text \<open>
  \<open>strconv.Atoi\<close> gives the integer or fails (\<open>None\<close>; \<open>Set\<close> does not read the error
  it returns). The loop appends to \<open>ints\<close> and returns at the first component that does
  not parse.
\<close>

fun Set_loop ::
  "(string \<Rightarrow> string) \<Rightarrow> (string \<Rightarrow> int option) \<Rightarrow> string list \<Rightarrow> int list \<Rightarrow> string + int list" where
  "Set_loop TrimSpace Atoi [] ints = Inr ints"
| "Set_loop TrimSpace Atoi (v # vs) ints =
     (case Atoi (TrimSpace v) of
        Some i \<Rightarrow> Set_loop TrimSpace Atoi vs (ints @ [i])
      | None \<Rightarrow> Inl (''Unable to parse '' @ v @ '' as int.''))"

text \<open>
  The flag's field \<open>slice\<close> is a pointer: \<open>None\<close> is \<open>nil\<close>, \<open>Some xs\<close> points to a slice
  holding \<open>xs\<close>. \<open>Set\<close> returns the error and the slice afterwards; storing through a
  \<open>nil\<close> pointer panics.
\<close>

definition IntSliceFlag_Set ::
  "(string \<Rightarrow> string) \<Rightarrow> (string \<Rightarrow> int option) \<Rightarrow> string \<Rightarrow> int list option \<Rightarrow>
   (string option \<times> int list option) result" where
  "IntSliceFlag_Set TrimSpace Atoi val slice_ptr =
     (case Set_loop TrimSpace Atoi (Split val CHR '','') [] of
        Inl err \<Rightarrow> Returns (Some err, slice_ptr)
      | Inr ints \<Rightarrow>
          (case slice_ptr of
             None \<Rightarrow> Panic NilDereference
           | Some old \<Rightarrow> Returns (None, Some ints)))"

text \<open>
  \<open>strings.TrimSpace\<close> and \<open>strconv.Atoi\<close> on ASCII input with a 64-bit \<open>int\<close>, used
  where a theorem is evaluated at a concrete input.
\<close>

definition isSpaceASCII :: "char \<Rightarrow> bool" where
  "isSpaceASCII c = ((of_char c :: nat) \<in> set [9, 10, 11, 12, 13, 32])"

definition ascii_TrimSpace :: "string \<Rightarrow> string" where
  "ascii_TrimSpace s = rev (dropWhile isSpaceASCII (rev (dropWhile isSpaceASCII s)))"

definition digitsValue :: "string \<Rightarrow> int" where
  "digitsValue ds = foldl (\<lambda>n c. 10 * n + (int (of_char c) - 48)) 0 ds"

definition ascii_Atoi :: "string \<Rightarrow> int option" where
  "ascii_Atoi s =
     (let neg = (s \<noteq> [] \<and> hd s = CHR ''-'');
          ds = (if s \<noteq> [] \<and> (hd s = CHR ''-'' \<or> hd s = CHR ''+'') then tl s else s);
          v = (if neg then - digitsValue ds else digitsValue ds)
      in if ds = [] \<or> \<not> list_all isDigitASCII ds then None
         else if v < - (2 ^ 63) \<or> 2 ^ 63 \<le> v then None
         else Some v)"

definition sample_PrintDefaults :: "Flag list \<Rightarrow> string" where
  "sample_PrintDefaults flags =
     concat (map (\<lambda>f. ''  -'' @ Name f @ [CHR 0x0A, CHR 0x09] @ Usage f @ [CHR 0x0A]) flags)"

section \<open>The mangler and the work queue\<close>

subsection \<open>\<open>Mangle\<close> and its test\<close>

text \<open>\<open>strings.HasPrefix\<close> and \<open>strings.Contains\<close>.\<close>

fun HasPrefix :: "string \<Rightarrow> string \<Rightarrow> bool" where
  "HasPrefix s [] = True"
| "HasPrefix [] (p # ps) = False"
| "HasPrefix (c # cs) (p # ps) = (c = p \<and> HasPrefix cs ps)"

fun Contains :: "string \<Rightarrow> string \<Rightarrow> bool" where
  "Contains [] substr = (substr = [])"
| "Contains (c # cs) substr = (HasPrefix (c # cs) substr \<or> Contains cs substr)"

text \<open>
  \<open>TestMangle\<close>, for the function under test: the messages of its \<open>t.Errorf\<close> calls, so
  the test passes when the list is empty.
\<close>

definition TestMangle :: "(string \<Rightarrow> string list) \<Rightarrow> string list" where
  "TestMangle mangle =
     (let foo = ''foo''
      in concat (map (\<lambda>r. if \<not> Contains r foo then [''Expected '' @ foo @ '' within '' @ r]
                            else [])
                   (mangle foo)))"

text \<open>
  Modelled from the spec: \<open>Mangle\<close> is not among the sources, only \<open>TestMangle\<close> is. The
  spec gives \<open>Mangle(name, extensions)\<close> a set of strings as result and says that for a
  bare name with no extension delimiter it returns the name together with
  \<open>name + "." + ext\<close> for every extension. It does not say what a name with a delimiter
  yields: that is the argument \<open>dotted\<close>.
\<close>

definition Mangle ::
  "(string \<Rightarrow> string list \<Rightarrow> string set) \<Rightarrow> string \<Rightarrow> string list \<Rightarrow> string set" where
  "Mangle dotted name extensions =
     (if CHR ''.'' \<in> set name then dotted name extensions
      else insert name (set (map (\<lambda>ext. name @ ''.'' @ ext) extensions)))"

subsection \<open>\<open>WorkQueue.Add\<close>\<close>

text \<open>
  Modelled from the spec: the work queue is not among the sources. Its state is the set
  of seen keys, the pending count and the URLs available for dequeue. \<open>Add\<close> takes each
  URL in turn: if its normalized string key is not seen yet, the key is marked seen, the
  pending count is incremented and the URL is made available; a URL already seen is
  dropped. The normalization \<open>key\<close> is an argument. Every \<open>Add\<close> is one atomic
  transition (the queue's lock), so calls act one after the other.
\<close>

record 'u WorkQueue =
  seen :: "string set"
  pending :: nat
  available :: "'u list"

text \<open>
  Modelled from the spec: what \<open>Add\<close> does for one URL (the work queue is not among the
  sources): seen means dropped, otherwise marked seen, counted and made available.
\<close>

definition addOne :: "('u \<Rightarrow> string) \<Rightarrow> 'u WorkQueue \<Rightarrow> 'u \<Rightarrow> 'u WorkQueue" where
  "addOne key q u =
     (if key u \<in> seen q then q
      else q\<lparr>seen := insert (key u) (seen q), pending := Suc (pending q),
             available := available q @ [u]\<rparr>)"

text \<open>
  Modelled from the spec: \<open>Add(urls...)\<close> (the work queue is not among the sources) treats
  its URLs one by one, in order.
\<close>

definition WorkQueue_Add :: "('u \<Rightarrow> string) \<Rightarrow> 'u list \<Rightarrow> 'u WorkQueue \<Rightarrow> 'u WorkQueue" where
  "WorkQueue_Add key urls q = foldl (addOne key) q urls"

text \<open>A sequence of \<open>Add\<close> calls, each with its URLs.\<close>

definition addCalls :: "('u \<Rightarrow> string) \<Rightarrow> 'u list list \<Rightarrow> 'u WorkQueue \<Rightarrow> 'u WorkQueue" where
  "addCalls key calls q = foldl (\<lambda>q' urls. WorkQueue_Add key urls q') q calls"

definition emptyQueue :: "'u WorkQueue" where
  "emptyQueue = \<lparr>seen = {}, pending = 0, available = []\<rparr>"

section \<open>Properties of the HTML worker\<close>

lemma canonical_content_type:
  "CanonicalMIMEHeaderKey ''Content-type'' = ''Content-Type''"
  by code_simp

text \<open>
  Claim C1. \<open>Eligible\<close> holds exactly when the lowercased \<open>Content-type\<close> header is
  \<open>text/html\<close> and the content length, read as a signed 64-bit integer, is strictly
  between 0 and 1048576. For such a content type, length 0 and length 1048576 are not
  eligible and length 1 is.
\<close>

theorem Eligible_iff:
  "(Eligible ToLower resp \<longleftrightarrow>
      ToLower (Header_Get (Header resp) ''Content-type'') = ''text/html'' \<and>
      0 < sint (ContentLength resp) \<and> sint (ContentLength resp) < 1048576) \<and>
   (ToLower (Header_Get (Header resp) ''Content-type'') = ''text/html'' \<longrightarrow>
      \<not> Eligible ToLower (resp\<lparr>ContentLength := 0\<rparr>) \<and>
      \<not> Eligible ToLower (resp\<lparr>ContentLength := 1048576\<rparr>) \<and>
      Eligible ToLower (resp\<lparr>ContentLength := 1\<rparr>))"
  by (simp add: Eligible_def word_sless_alt)

theorem Eligible_iff_witness:
  "ascii_ToLower (Header_Get (Header \<lparr>Header = [''Content-Type'' \<mapsto> [''Text/HTML'']],
        ContentLength = 0\<rparr>) ''Content-type'') = ''text/html'' \<and>
   \<not> Eligible ascii_ToLower \<lparr>Header = [''Content-Type'' \<mapsto> [''Text/HTML'']], ContentLength = 0\<rparr> \<and>
   \<not> Eligible ascii_ToLower \<lparr>Header = [''Content-Type'' \<mapsto> [''Text/HTML'']], ContentLength = 1048576\<rparr> \<and>
   Eligible ascii_ToLower \<lparr>Header = [''Content-Type'' \<mapsto> [''Text/HTML'']], ContentLength = 1\<rparr>"
proof -
  have ct: "ascii_ToLower (Header_Get (Header \<lparr>Header = [''Content-Type'' \<mapsto> [''Text/HTML'']],
        ContentLength = 0\<rparr>) ''Content-type'') = ''text/html''"
    by code_simp
  from Eligible_iff [of ascii_ToLower
      "\<lparr>Header = [''Content-Type'' \<mapsto> [''Text/HTML'']], ContentLength = 0\<rparr>"] ct
  show ?thesis by simp
qed

lemma appendHref_firstHref: "appendHref L attrs links = links @ firstHref L attrs"
  by (induction attrs) (simp_all add: firstHref_def)

lemma firstHref_iff:
  "v \<in> set (firstHref L attrs) \<longleftrightarrow>
   (\<exists>i < length attrs. L (Key (attrs ! i)) = ''href'' \<and> Val (attrs ! i) = v \<and>
      (\<forall>j < i. L (Key (attrs ! j)) \<noteq> ''href''))"
proof (cases "find (\<lambda>a. L (Key a) = ''href'') attrs")
  case None
  then have "\<forall>a \<in> set attrs. L (Key a) \<noteq> ''href''"
    by (simp add: find_None_iff)
  then have "\<forall>i < length attrs. L (Key (attrs ! i)) \<noteq> ''href''"
    by simp
  then have "\<not> (\<exists>i < length attrs. L (Key (attrs ! i)) = ''href'' \<and> Val (attrs ! i) = v \<and>
      (\<forall>j < i. L (Key (attrs ! j)) \<noteq> ''href''))"
    by blast
  moreover have "firstHref L attrs = []" using None by (simp add: firstHref_def)
  ultimately show ?thesis
    by simp
next
  case (Some a)
  then obtain i where i: "i < length attrs" "L (Key (attrs ! i)) = ''href''" "a = attrs ! i"
    "\<forall>j < i. L (Key (attrs ! j)) \<noteq> ''href''"
    unfolding find_Some_iff by blast
  have uniq: "k = i" if "k < length attrs" "L (Key (attrs ! k)) = ''href''"
    "\<forall>j < k. L (Key (attrs ! j)) \<noteq> ''href''" for k
  proof (rule ccontr)
    assume "k \<noteq> i"
    then consider "k < i" | "i < k" by linarith
    then show False
    proof cases
      case 1 with i(4) that(2) show False by blast
    next
      case 2 with that(3) i(2) show False by blast
    qed
  qed
  have fh: "firstHref L attrs = [Val (attrs ! i)]" using Some i(3) by (simp add: firstHref_def)
  show ?thesis
  proof
    assume "v \<in> set (firstHref L attrs)"
    with fh have "Val (attrs ! i) = v" by simp
    with i show "\<exists>i < length attrs. L (Key (attrs ! i)) = ''href'' \<and> Val (attrs ! i) = v \<and>
      (\<forall>j < i. L (Key (attrs ! j)) \<noteq> ''href'')" by blast
  next
    assume "\<exists>i < length attrs. L (Key (attrs ! i)) = ''href'' \<and> Val (attrs ! i) = v \<and>
      (\<forall>j < i. L (Key (attrs ! j)) \<noteq> ''href'')"
    then obtain k where k: "k < length attrs" "L (Key (attrs ! k)) = ''href''" "Val (attrs ! k) = v"
      "\<forall>j < k. L (Key (attrs ! j)) \<noteq> ''href''" by blast
    from uniq [OF k(1,2,4)] k(3) fh show "v \<in> set (firstHref L attrs)" by simp
  qed
qed

lemma anchorLinks_iff:
  "v \<in> set (anchorLinks L n) \<longleftrightarrow> isAnchor L n \<and> isHrefOf L n v"
  by (simp add: anchorLinks_def isHrefOf_def firstHref_iff)

lemma handleNode_nodes:
  "handleNode L n links = links @ concat (map (anchorLinks L) (nodes n))"
  "handleSiblings L ns links = links @ concat (map (anchorLinks L) (concat (map nodes ns)))"
proof (induction L n links and L ns links rule: handleNode_handleSiblings.induct)
  case (1 ToLower ty dat attrs cs links)
  then show ?case
    by (simp add: anchorLinks_def isAnchor_def appendHref_firstHref)
next
  case (2 ToLower links)
  then show ?case by simp
next
  case (3 ToLower n ns links)
  then show ?case by simp
qed

lemma dedupeFrom_set: "set (dedupeFrom old xs) = set xs - set old"
  by (induction old xs rule: dedupeFrom.induct) auto

lemma dedupeFrom_distinct: "distinct (dedupeFrom old xs)"
  by (induction old xs rule: dedupeFrom.induct) (auto simp: dedupeFrom_set)

text \<open>
  Claim C2. The list \<open>GetLinks\<close> returns has no duplicates, and when the body parses to
  a tree its members are exactly the \<open>href\<close> values of the anchor elements of that tree:
  for each element node whose lowercased name is \<open>a\<close>, the value of its first attribute
  whose lowercased key is \<open>href\<close> (where the attribute loop breaks).
\<close>

theorem GetLinks_hrefs:
  "distinct (fst (GetLinks html_Parse ToLower body)) \<and>
   (\<forall>tree. html_Parse body = Inr tree \<longrightarrow>
      set (fst (GetLinks html_Parse ToLower body)) =
        {v. \<exists>n \<in> set (nodes tree). isAnchor ToLower n \<and> isHrefOf ToLower n v})"
  by (auto simp: GetLinks_def DedupeStrings_def dedupeFrom_distinct dedupeFrom_set
      handleNode_nodes anchorLinks_iff split: sum.splits)

theorem GetLinks_hrefs_witness:
  "sample_html_Parse ''<html>'' = Inr sample_tree \<and>
   fst (GetLinks sample_html_Parse ascii_ToLower ''<html>'') = [''/about'', ''%zz'', ''/c''] \<and>
   distinct (fst (GetLinks sample_html_Parse ascii_ToLower ''<html>'')) \<and>
   set (fst (GetLinks sample_html_Parse ascii_ToLower ''<html>'')) =
     {v. \<exists>n \<in> set (nodes sample_tree). isAnchor ascii_ToLower n \<and> isHrefOf ascii_ToLower n v}"
proof -
  have p: "sample_html_Parse ''<html>'' = Inr sample_tree"
    by (simp add: sample_html_Parse_def)
  have v: "fst (GetLinks sample_html_Parse ascii_ToLower ''<html>'') = [''/about'', ''%zz'', ''/c'']"
    by code_simp
  from GetLinks_hrefs [of sample_html_Parse ascii_ToLower "''<html>''"] p
  have "distinct (fst (GetLinks sample_html_Parse ascii_ToLower ''<html>'')) \<and>
    set (fst (GetLinks sample_html_Parse ascii_ToLower ''<html>'')) =
     {v. \<exists>n \<in> set (nodes sample_tree). isAnchor ascii_ToLower n \<and> isHrefOf ascii_ToLower n v}"
    by blast
  with p v show ?thesis by blast
qed

text \<open>
  Claim C4. When \<open>html.Parse\<close> fails, \<open>GetLinks\<close> returns no links and makes one log
  call with the error; nothing is propagated, and \<open>Handle\<close> on that body goes on to call
  the adder, with no URLs.
\<close>

theorem GetLinks_parse_failure:
  "html_Parse body = Inl err \<Longrightarrow>
   GetLinks html_Parse ToLower body =
     ([], [(LogInfo, ''Unable to parse HTML document: '' @ err)]) \<and>
   Handle html_Parse ToLower url_Parse ResolveReference adder base body q =
     (adder [] q, [(LogInfo, ''Unable to parse HTML document: '' @ err)])"
  by (simp add: GetLinks_def Handle_def)

theorem GetLinks_parse_failure_witness:
  "sample_html_Parse ''<a href='' = Inl ''unexpected EOF'' \<and>
   GetLinks sample_html_Parse ascii_ToLower ''<a href='' =
     ([], [(LogInfo, ''Unable to parse HTML document: unexpected EOF'')]) \<and>
   Handle sample_html_Parse ascii_ToLower sample_url_Parse sample_ResolveReference sample_adder
       sample_base ''<a href='' [] =
     ([[]], [(LogInfo, ''Unable to parse HTML document: unexpected EOF'')])"
proof -
  have p: "sample_html_Parse ''<a href='' = Inl ''unexpected EOF''"
    by (simp add: sample_html_Parse_def)
  from GetLinks_parse_failure [of sample_html_Parse "''<a href=''" "''unexpected EOF''"
      ascii_ToLower sample_url_Parse sample_ResolveReference sample_adder sample_base "[]"] p
  show ?thesis by (simp add: sample_adder_def)
qed

lemma resolveLinks_eq:
  "resolveLinks UP RR base links (found, log) =
     (found @ map (RR base) (parsedLinks UP links), log @ parseErrors UP links)"
  by (induction links arbitrary: found log)
     (simp_all add: parsedLinks_def parseErrors_def split: sum.splits)

lemma parsedLinks_mem:
  "l \<in> set links \<Longrightarrow> UP l = Inr u \<Longrightarrow> u \<in> set (parsedLinks UP links)"
  by (force simp: parsedLinks_def)

lemma parseErrors_mem:
  "l \<in> set links \<Longrightarrow> UP l = Inl err \<Longrightarrow>
   (LogInfo, ''Error parsing URL ('' @ l @ ''): '' @ err) \<in> set (parseErrors UP links)"
  by (force simp: parseErrors_def)

text \<open>
  Claim C3. \<open>Handle\<close> calls the adder once, with the links that parse, each resolved
  against the document's URL, in order; every link that does not parse is logged and
  skipped. So each link that parses is among the URLs given to the adder, whatever the
  other links of the document are, and each link that does not parse has its log call.
\<close>

theorem Handle_skips_malformed:
  "Handle html_Parse ToLower url_Parse ResolveReference adder base body q =
     (adder (map (ResolveReference base)
               (parsedLinks url_Parse (fst (GetLinks html_Parse ToLower body)))) q,
      snd (GetLinks html_Parse ToLower body) @
        parseErrors url_Parse (fst (GetLinks html_Parse ToLower body))) \<and>
   (\<forall>l \<in> set (fst (GetLinks html_Parse ToLower body)).
      (\<forall>u. url_Parse l = Inr u \<longrightarrow>
         ResolveReference base u \<in> set (map (ResolveReference base)
               (parsedLinks url_Parse (fst (GetLinks html_Parse ToLower body))))) \<and>
      (\<forall>err. url_Parse l = Inl err \<longrightarrow>
         (LogInfo, ''Error parsing URL ('' @ l @ ''): '' @ err)
           \<in> set (parseErrors url_Parse (fst (GetLinks html_Parse ToLower body)))))"
proof (intro conjI ballI allI impI)
  show "Handle html_Parse ToLower url_Parse ResolveReference adder base body q =
     (adder (map (ResolveReference base)
               (parsedLinks url_Parse (fst (GetLinks html_Parse ToLower body)))) q,
      snd (GetLinks html_Parse ToLower body) @
        parseErrors url_Parse (fst (GetLinks html_Parse ToLower body)))"
    by (simp add: Handle_def resolveLinks_eq split: prod.splits)
next
  fix l u
  assume "l \<in> set (fst (GetLinks html_Parse ToLower body))" "url_Parse l = Inr u"
  then have "u \<in> set (parsedLinks url_Parse (fst (GetLinks html_Parse ToLower body)))"
    by (rule parsedLinks_mem)
  then show "ResolveReference base u \<in> set (map (ResolveReference base)
               (parsedLinks url_Parse (fst (GetLinks html_Parse ToLower body))))"
    by simp
next
  fix l err
  assume "l \<in> set (fst (GetLinks html_Parse ToLower body))" "url_Parse l = Inl err"
  then show "(LogInfo, ''Error parsing URL ('' @ l @ ''): '' @ err)
           \<in> set (parseErrors url_Parse (fst (GetLinks html_Parse ToLower body)))"
    by (rule parseErrors_mem)
qed

theorem Handle_skips_malformed_witness:
  "fst (GetLinks sample_html_Parse ascii_ToLower ''<html>'') = [''/about'', ''%zz'', ''/c''] \<and>
   sample_url_Parse ''/about'' = Inr (sample_base\<lparr>Scheme := [], Host := [], Path := ''/about''\<rparr>) \<and>
   sample_url_Parse ''%zz'' = Inl ''parse %zz: invalid URL escape'' \<and>
   Handle sample_html_Parse ascii_ToLower sample_url_Parse sample_ResolveReference sample_adder
       sample_base ''<html>'' [] =
     ([[sample_base\<lparr>Path := ''/about''\<rparr>, sample_base\<lparr>Path := ''/c''\<rparr>]],
      [(LogInfo, ''Error parsing URL (%zz): parse %zz: invalid URL escape'')])"
proof -
  have v: "fst (GetLinks sample_html_Parse ascii_ToLower ''<html>'') = [''/about'', ''%zz'', ''/c'']"
    by code_simp
  have l: "snd (GetLinks sample_html_Parse ascii_ToLower ''<html>'') = []"
    by code_simp
  have a: "sample_url_Parse ''/about'' =
      Inr (sample_base\<lparr>Scheme := [], Host := [], Path := ''/about''\<rparr>)"
    by (simp add: sample_url_Parse_def sample_base_def)
  have z: "sample_url_Parse ''%zz'' = Inl ''parse %zz: invalid URL escape''"
    by (simp add: sample_url_Parse_def)
  have c: "sample_url_Parse ''/c'' =
      Inr (sample_base\<lparr>Scheme := [], Host := [], Path := ''/c''\<rparr>)"
    by (simp add: sample_url_Parse_def sample_base_def)
  from Handle_skips_malformed [of sample_html_Parse ascii_ToLower sample_url_Parse
      sample_ResolveReference sample_adder sample_base "''<html>''" "[]"]
  have "Handle sample_html_Parse ascii_ToLower sample_url_Parse sample_ResolveReference
       sample_adder sample_base ''<html>'' [] =
     (sample_adder (map (sample_ResolveReference sample_base)
               (parsedLinks sample_url_Parse
                  (fst (GetLinks sample_html_Parse ascii_ToLower ''<html>'')))) [],
      snd (GetLinks sample_html_Parse ascii_ToLower ''<html>'') @
        parseErrors sample_url_Parse (fst (GetLinks sample_html_Parse ascii_ToLower ''<html>'')))"
    by blast
  then have "Handle sample_html_Parse ascii_ToLower sample_url_Parse sample_ResolveReference
       sample_adder sample_base ''<html>'' [] =
     ([[sample_base\<lparr>Path := ''/about''\<rparr>, sample_base\<lparr>Path := ''/c''\<rparr>]],
      [(LogInfo, ''Error parsing URL (%zz): parse %zz: invalid URL escape'')])"
    by (simp add: v l a z c parsedLinks_def parseErrors_def sample_adder_def
        sample_ResolveReference_def sample_base_def)
  with v a z show ?thesis by blast
qed

section \<open>Properties of the settings, the mangler and the work queue\<close>

lemma GetScopes_loop_isl:
  "isl (fst (GetScopes_loop UP US i bs scopes log)) \<longleftrightarrow> (\<exists>b \<in> set bs. isl (UP b))"
proof (induction bs arbitrary: i scopes log)
  case Nil
  show ?case by simp
next
  case (Cons b bs)
  show ?case
  proof (cases "UP b")
    case (Inl err)
    then show ?thesis by simp
  next
    case (Inr parsed)
    then show ?thesis using Cons.IH by (simp add: Let_def)
  qed
qed

lemma GetScopes_loop_Inr:
  "length scopes = i + length bs \<Longrightarrow> fst (GetScopes_loop UP US i bs scopes log) = Inr r \<Longrightarrow>
   r = take i scopes @ map (scopeOf UP) bs"
proof (induction bs arbitrary: i scopes log)
  case Nil
  then show ?case by simp
next
  case (Cons b bs)
  show ?case
  proof (cases "UP b")
    case (Inl err)
    with Cons.prems show ?thesis by simp
  next
    case (Inr parsed)
    define scope where "scope = (if Path parsed = [] then parsed\<lparr>Path := ''/''\<rparr> else parsed)"
    have len: "length (scopes[i := Some scope]) = Suc i + length bs"
      using Cons.prems(1) by simp
    have run: "fst (GetScopes_loop UP US (Suc i) bs (scopes[i := Some scope])
        (log @ [(LogDebug, ''Added BaseURL: '' @ US scope)])) = Inr r"
      using Cons.prems(2) Inr by (simp add: scope_def Let_def)
    have "r = take (Suc i) (scopes[i := Some scope]) @ map (scopeOf UP) bs"
      by (rule Cons.IH [OF len run])
    moreover have "i < length scopes" using Cons.prems(1) by simp
    then have "take (Suc i) (scopes[i := Some scope]) = take i scopes @ [Some scope]"
      by (simp add: take_Suc_conv_app_nth)
    moreover have "scopeOf UP b = Some scope"
      using Inr by (simp add: scopeOf_def scope_def)
    ultimately show ?thesis by simp
  qed
qed

text \<open>
  Claim C6. \<open>GetScopes\<close> returns an error exactly when \<open>url.Parse\<close> rejects one of the
  base URLs. When it succeeds, the slice has one scope per base URL, in order: the parsed
  base URL, with the path \<open>/\<close> in place of an empty path.
\<close>

theorem GetScopes_result:
  "(isl (fst (GetScopes url_Parse URL_String settings)) \<longleftrightarrow>
      (\<exists>b \<in> set (BaseURLs settings). isl (url_Parse b))) \<and>
   (\<forall>scopes. fst (GetScopes url_Parse URL_String settings) = Inr scopes \<longrightarrow>
      length scopes = length (BaseURLs settings) \<and>
      (\<forall>i < length (BaseURLs settings). \<exists>u.
          url_Parse (BaseURLs settings ! i) = Inr u \<and>
          scopes ! i = Some (if Path u = [] then u\<lparr>Path := ''/''\<rparr> else u)))"
proof (intro conjI allI impI)
  show "isl (fst (GetScopes url_Parse URL_String settings)) \<longleftrightarrow>
      (\<exists>b \<in> set (BaseURLs settings). isl (url_Parse b))"
    by (simp add: GetScopes_def GetScopes_loop_isl)
next
  fix scopes
  assume ok: "fst (GetScopes url_Parse URL_String settings) = Inr scopes"
  then have eq: "scopes = map (scopeOf url_Parse) (BaseURLs settings)"
    using GetScopes_loop_Inr [of "replicate (length (BaseURLs settings)) None" 0
        "BaseURLs settings" url_Parse URL_String "[]" scopes]
    by (simp add: GetScopes_def)
  then show "length scopes = length (BaseURLs settings)" by simp
  fix i
  assume i: "i < length (BaseURLs settings)"
  from ok have "\<not> isl (fst (GetScopes url_Parse URL_String settings))" by simp
  then have "\<not> isl (url_Parse (BaseURLs settings ! i))"
    using i by (simp add: GetScopes_def GetScopes_loop_isl)
  then obtain u where u: "url_Parse (BaseURLs settings ! i) = Inr u"
    by (cases "url_Parse (BaseURLs settings ! i)") auto
  with eq i have "scopes ! i = Some (if Path u = [] then u\<lparr>Path := ''/''\<rparr> else u)"
    by (simp add: scopeOf_def)
  with u show "\<exists>u. url_Parse (BaseURLs settings ! i) = Inr u \<and>
          scopes ! i = Some (if Path u = [] then u\<lparr>Path := ''/''\<rparr> else u)"
    by blast
qed

theorem GetScopes_result_witness:
  "fst (GetScopes sample_url_Parse sample_URL_String
         ((defaultSettings 4)\<lparr>BaseURLs := [''http://example.test'', ''http://example.test/app'']\<rparr>)) =
     Inr [Some sample_base, Some (sample_base\<lparr>Path := ''/app''\<rparr>)] \<and>
   sample_url_Parse ''http://example.test'' = Inr (sample_base\<lparr>Path := []\<rparr>) \<and>
   \<not> isl (fst (GetScopes sample_url_Parse sample_URL_String
         ((defaultSettings 4)\<lparr>BaseURLs := [''http://example.test'', ''http://example.test/app'']\<rparr>))) \<and>
   isl (sample_url_Parse ''%zz'') \<and>
   isl (fst (GetScopes sample_url_Parse sample_URL_String
         ((defaultSettings 4)\<lparr>BaseURLs := [''http://example.test/'', ''%zz'']\<rparr>)))"
proof -
  note t1 = GetScopes_result [of sample_url_Parse sample_URL_String
      "(defaultSettings 4)\<lparr>BaseURLs := [''http://example.test'', ''http://example.test/app'']\<rparr>"]
  note t2 = GetScopes_result [of sample_url_Parse sample_URL_String
      "(defaultSettings 4)\<lparr>BaseURLs := [''http://example.test/'', ''%zz'']\<rparr>"]
  have ok: "fst (GetScopes sample_url_Parse sample_URL_String
         ((defaultSettings 4)\<lparr>BaseURLs := [''http://example.test'', ''http://example.test/app'']\<rparr>)) =
     Inr [Some sample_base, Some (sample_base\<lparr>Path := ''/app''\<rparr>)]"
    by code_simp
  have p: "sample_url_Parse ''http://example.test'' = Inr (sample_base\<lparr>Path := []\<rparr>)"
    by code_simp
  have b1: "\<not> isl (sample_url_Parse ''http://example.test'')"
    by (simp add: p)
  have b2: "\<not> isl (sample_url_Parse ''http://example.test/app'')"
    by code_simp
  have z: "isl (sample_url_Parse ''%zz'')"
    by code_simp
  have n: "\<not> isl (fst (GetScopes sample_url_Parse sample_URL_String
         ((defaultSettings 4)\<lparr>BaseURLs := [''http://example.test'', ''http://example.test/app'']\<rparr>)))"
    using t1 [THEN conjunct1] b1 b2 by simp
  have e: "isl (fst (GetScopes sample_url_Parse sample_URL_String
         ((defaultSettings 4)\<lparr>BaseURLs := [''http://example.test/'', ''%zz'']\<rparr>)))"
    using t2 [THEN conjunct1] z by simp
  show ?thesis
    by (intro conjI) (rule ok p n z e)+
qed

text \<open>
  Claim C7. \<open>Validate\<close> returns an error exactly when \<open>BaseURLs\<close> is empty; it never
  changes the settings, and with a base URL it returns no error and writes nothing.
\<close>

theorem Validate_result:
  "(fst (Validate PrintDefaults st) \<noteq> None \<longleftrightarrow> BaseURLs (fst st) = []) \<and>
   fst (snd (Validate PrintDefaults st)) = st \<and>
   (BaseURLs (fst st) \<noteq> [] \<longrightarrow> Validate PrintDefaults st = (None, st, []))"
  by (simp add: Validate_def Let_def)

theorem Validate_result_witness:
  "Validate sample_PrintDefaults (defaultSettings 4, []) =
     (Some ''URL is required.'', (defaultSettings 4, []), [''Usage:'' @ [CHR 0x0A], []]) \<and>
   fst (Validate sample_PrintDefaults (defaultSettings 4, [])) \<noteq> None \<and>
   BaseURLs ((defaultSettings 4)\<lparr>BaseURLs := [''http://example.test'']\<rparr>) \<noteq> [] \<and>
   Validate sample_PrintDefaults ((defaultSettings 4)\<lparr>BaseURLs := [''http://example.test'']\<rparr>, []) =
     (None, ((defaultSettings 4)\<lparr>BaseURLs := [''http://example.test'']\<rparr>, []), [])"
proof -
  note t1 = Validate_result [of sample_PrintDefaults "(defaultSettings 4, [])"]
  note t2 = Validate_result [of sample_PrintDefaults
      "((defaultSettings 4)\<lparr>BaseURLs := [''http://example.test'']\<rparr>, [])"]
  have v: "Validate sample_PrintDefaults (defaultSettings 4, []) =
     (Some ''URL is required.'', (defaultSettings 4, []), [''Usage:'' @ [CHR 0x0A], []])"
    by (simp add: Validate_def defaultSettings_def sample_PrintDefaults_def)
  have e: "fst (Validate sample_PrintDefaults (defaultSettings 4, [])) \<noteq> None"
    using t1 [THEN conjunct1] by (simp add: defaultSettings_def)
  have b: "BaseURLs ((defaultSettings 4)\<lparr>BaseURLs := [''http://example.test'']\<rparr>) \<noteq> []"
    by simp
  have n: "Validate sample_PrintDefaults
      ((defaultSettings 4)\<lparr>BaseURLs := [''http://example.test'']\<rparr>, []) =
     (None, ((defaultSettings 4)\<lparr>BaseURLs := [''http://example.test'']\<rparr>, []), [])"
    using t2 [THEN conjunct2, THEN conjunct2] b by simp
  show ?thesis
    by (intro conjI) (rule v e b n)+
qed

lemma Set_loop_eq:
  "Set_loop T A vs ints =
     (if \<exists>v \<in> set vs. A (T v) = None
      then Inl (''Unable to parse '' @ hd (filter (\<lambda>v. A (T v) = None) vs) @ '' as int.'')
      else Inr (ints @ map (\<lambda>v. the (A (T v))) vs))"
  by (induction vs arbitrary: ints) (auto split: option.splits)

text \<open>
  Claim C9. \<open>Set\<close> returns an error exactly when some comma-separated component, trimmed,
  does not parse as an integer, and then the slice is as before. When it returns without
  error the slice holds the parsed integers in input order; with a slice to store into,
  \<open>Set\<close> always returns.
\<close>

theorem IntSliceFlag_Set_result:
  "((\<exists>err s. IntSliceFlag_Set TrimSpace Atoi val p = Returns (Some err, s)) \<longleftrightarrow>
      (\<exists>c \<in> set (Split val CHR '',''). Atoi (TrimSpace c) = None)) \<and>
   (\<forall>err s. IntSliceFlag_Set TrimSpace Atoi val p = Returns (Some err, s) \<longrightarrow> s = p) \<and>
   (\<forall>s. IntSliceFlag_Set TrimSpace Atoi val p = Returns (None, s) \<longrightarrow>
      (\<exists>ints. s = Some ints \<and>
         map Some ints = map (\<lambda>c. Atoi (TrimSpace c)) (Split val CHR '',''))) \<and>
   (p \<noteq> None \<longrightarrow> (\<exists>r. IntSliceFlag_Set TrimSpace Atoi val p = Returns r))"
proof (cases "\<exists>c \<in> set (Split val CHR '',''). Atoi (TrimSpace c) = None")
  case True
  then show ?thesis
    by (simp add: IntSliceFlag_Set_def Set_loop_eq)
next
  case False
  then have "map Some (map (\<lambda>c. the (Atoi (TrimSpace c))) (Split val CHR '','')) =
      map (\<lambda>c. Atoi (TrimSpace c)) (Split val CHR '','')"
    by auto
  with False show ?thesis
    by (cases p) (simp_all add: IntSliceFlag_Set_def Set_loop_eq)
qed

theorem IntSliceFlag_Set_result_witness:
  "IntSliceFlag_Set ascii_TrimSpace ascii_Atoi ''200, 301 ,-404'' (Some [200]) =
     Returns (None, Some [200, 301, -404]) \<and>
   map (\<lambda>c. ascii_Atoi (ascii_TrimSpace c)) (Split ''200, 301 ,-404'' CHR '','') =
     [Some 200, Some 301, Some (-404)] \<and>
   IntSliceFlag_Set ascii_TrimSpace ascii_Atoi ''200,3x1'' (Some [200]) =
     Returns (Some ''Unable to parse 3x1 as int.'', Some [200]) \<and>
   (\<exists>c \<in> set (Split ''200,3x1'' CHR '',''). ascii_Atoi (ascii_TrimSpace c) = None)"
proof -
  have ok: "IntSliceFlag_Set ascii_TrimSpace ascii_Atoi ''200, 301 ,-404'' (Some [200]) =
     Returns (None, Some [200, 301, -404])"
    by code_simp
  have bad: "IntSliceFlag_Set ascii_TrimSpace ascii_Atoi ''200,3x1'' (Some [200]) =
     Returns (Some ''Unable to parse 3x1 as int.'', Some [200])"
    by code_simp
  from IntSliceFlag_Set_result [of ascii_TrimSpace ascii_Atoi "''200, 301 ,-404''" "Some [200]"] ok
  have 1: "map (\<lambda>c. ascii_Atoi (ascii_TrimSpace c)) (Split ''200, 301 ,-404'' CHR '','') =
     [Some 200, Some 301, Some (-404)]"
    by fastforce
  from IntSliceFlag_Set_result [of ascii_TrimSpace ascii_Atoi "''200,3x1''" "Some [200]"] bad
  have 2: "\<exists>c \<in> set (Split ''200,3x1'' CHR '',''). ascii_Atoi (ascii_TrimSpace c) = None"
    by blast
  from ok bad 1 2 show ?thesis by blast
qed

lemma runSteps_last:
  "runSteps fs st = Returns st' \<Longrightarrow> fs \<noteq> [] \<Longrightarrow>
   last fs = (\<lambda>x. Returns ((fst x)\<lparr>flagsSet := True\<rparr>, snd x)) \<Longrightarrow> flagsSet (fst st')"
proof (induction fs arbitrary: st)
  case Nil
  then show ?case by simp
next
  case (Cons f fs)
  show ?case
  proof (cases fs)
    case Nil
    with Cons.prems show ?thesis by auto
  next
    case (Cons g gs)
    with Cons.prems Cons.IH show ?thesis
      by (auto split: result.splits)
  qed
qed

text \<open>
  Claim C10. Once \<open>flagsSet\<close> holds, \<open>InitFlags\<close> returns with the settings and the
  registry as they were. A call that returns leaves \<open>flagsSet\<close> set, so a second call
  after it changes nothing.
\<close>

theorem InitFlags_idempotent:
  "(flagsSet (fst st) \<longrightarrow> InitFlags NumCPU outputFormats LogLevelStrings st = Returns st) \<and>
   (\<forall>st'. InitFlags NumCPU outputFormats LogLevelStrings st = Returns st' \<longrightarrow>
      flagsSet (fst st') \<and> InitFlags NumCPU outputFormats LogLevelStrings st' = Returns st')"
proof (intro conjI allI impI)
  show "InitFlags NumCPU outputFormats LogLevelStrings st = Returns st" if "flagsSet (fst st)"
    using that by (simp add: InitFlags_def)
next
  fix st'
  assume r: "InitFlags NumCPU outputFormats LogLevelStrings st = Returns st'"
  show fs: "flagsSet (fst st')"
  proof (cases "flagsSet (fst st)")
    case True
    with r show ?thesis by (simp add: InitFlags_def)
  next
    case False
    show ?thesis
      by (rule runSteps_last [OF r [unfolded InitFlags_def if_not_P [OF False]]]) simp_all
  qed
  then show "InitFlags NumCPU outputFormats LogLevelStrings st' = Returns st'"
    by (simp add: InitFlags_def)
qed

theorem InitFlags_idempotent_witness:
  "\<not> flagsSet (defaultSettings 4) \<and>
   NewScanSettings 4 [''text'', ''csv''] [''DEBUG'', ''INFO'', ''WARNING''] [] =
     Returns (returned (NewScanSettings 4 [''text'', ''csv''] [''DEBUG'', ''INFO'', ''WARNING''] [])) \<and>
   flagsSet (fst (returned
     (NewScanSettings 4 [''text'', ''csv''] [''DEBUG'', ''INFO'', ''WARNING''] []))) \<and>
   InitFlags 4 [''text'', ''csv''] [''DEBUG'', ''INFO'', ''WARNING'']
     (returned (NewScanSettings 4 [''text'', ''csv''] [''DEBUG'', ''INFO'', ''WARNING''] [])) =
     Returns (returned (NewScanSettings 4 [''text'', ''csv''] [''DEBUG'', ''INFO'', ''WARNING''] [])) \<and>
   Workers (fst (returned
     (NewScanSettings 4 [''text'', ''csv''] [''DEBUG'', ''INFO'', ''WARNING''] []))) = 8 \<and>
   map Name (snd (returned
     (NewScanSettings 4 [''text'', ''csv''] [''DEBUG'', ''INFO'', ''WARNING''] []))) =
     [''url'', ''threads'', ''workers'', ''exclude'', ''html'', ''allow-upgrade'', ''sleep'',
      ''logfile'', ''wordlist'', ''extensions'', ''mangle'', ''proxy'', ''timeout'', ''format'',
      ''outfile'', ''loglevel'', ''user-agent'', ''include-redirects'', ''spider-codes'',
      ''robots-mode'', ''debug-cpuprof''] \<and>
   NewScanSettings 4 [''text'', ''csv''] [''DEBUG'', ''INFO'', ''WARNING'']
     [\<lparr>Name = ''sleep'', Usage = []\<rparr>] = Panic (FlagRedefined ''sleep'')"
proof -
  have f: "\<not> flagsSet (defaultSettings 4)"
    by (simp add: defaultSettings_def)
  have r: "NewScanSettings 4 [''text'', ''csv''] [''DEBUG'', ''INFO'', ''WARNING''] [] =
     Returns (returned (NewScanSettings 4 [''text'', ''csv''] [''DEBUG'', ''INFO'', ''WARNING''] []))"
    by code_simp
  note t = InitFlags_idempotent [of "(defaultSettings 4, [])" 4 "[''text'', ''csv'']"
      "[''DEBUG'', ''INFO'', ''WARNING'']", THEN conjunct2, rule_format, OF r [unfolded NewScanSettings_def],
      folded NewScanSettings_def]
  have w: "Workers (fst (returned
     (NewScanSettings 4 [''text'', ''csv''] [''DEBUG'', ''INFO'', ''WARNING''] []))) = 8"
    by code_simp
  have n: "map Name (snd (returned
     (NewScanSettings 4 [''text'', ''csv''] [''DEBUG'', ''INFO'', ''WARNING''] []))) =
     [''url'', ''threads'', ''workers'', ''exclude'', ''html'', ''allow-upgrade'', ''sleep'',
      ''logfile'', ''wordlist'', ''extensions'', ''mangle'', ''proxy'', ''timeout'', ''format'',
      ''outfile'', ''loglevel'', ''user-agent'', ''include-redirects'', ''spider-codes'',
      ''robots-mode'', ''debug-cpuprof'']"
    by code_simp
  have p: "NewScanSettings 4 [''text'', ''csv''] [''DEBUG'', ''INFO'', ''WARNING'']
     [\<lparr>Name = ''sleep'', Usage = []\<rparr>] = Panic (FlagRedefined ''sleep'')"
    by code_simp
  show ?thesis
    by (intro conjI) (rule f r t [THEN conjunct1] t [THEN conjunct2] w n p)+
qed

lemma HasPrefix_iff: "HasPrefix s p \<longleftrightarrow> (\<exists>post. s = p @ post)"
  by (induction s p rule: HasPrefix.induct) auto

lemma Contains_iff: "Contains s sub \<longleftrightarrow> (\<exists>pre post. s = pre @ sub @ post)"
proof (induction s)
  case Nil
  show ?case by auto
next
  case (Cons c cs)
  show ?case
  proof
    assume "Contains (c # cs) sub"
    then consider "HasPrefix (c # cs) sub" | "Contains cs sub" by auto
    then show "\<exists>pre post. c # cs = pre @ sub @ post"
    proof cases
      case 1
      then obtain post where "c # cs = sub @ post" by (auto simp: HasPrefix_iff)
      then have "c # cs = [] @ sub @ post" by simp
      then show ?thesis by blast
    next
      case 2
      then obtain pre post where "cs = pre @ sub @ post" using Cons.IH by blast
      then have "c # cs = (c # pre) @ sub @ post" by simp
      then show ?thesis by blast
    qed
  next
    assume "\<exists>pre post. c # cs = pre @ sub @ post"
    then obtain pre post where e: "c # cs = pre @ sub @ post" by blast
    show "Contains (c # cs) sub"
    proof (cases pre)
      case Nil
      with e have "HasPrefix (c # cs) sub" by (auto simp: HasPrefix_iff)
      then show ?thesis by simp
    next
      case (Cons p ps)
      with e have "cs = ps @ sub @ post" by simp
      then have "Contains cs sub" using Cons.IH by blast
      then show ?thesis by simp
    qed
  qed
qed

lemma Mangle_bare:
  "CHR ''.'' \<notin> set name \<Longrightarrow>
   Mangle dotted name extensions = insert name ((\<lambda>ext. name @ ''.'' @ ext) ` set extensions)"
  by (simp add: Mangle_def)

lemma card_variants:
  "distinct extensions \<Longrightarrow>
   card ((\<lambda>ext. name @ ''.'' @ ext) ` set extensions) = length extensions"
proof -
  assume d: "distinct extensions"
  have "inj_on (\<lambda>ext. name @ ''.'' @ ext) (set extensions)"
    by (rule inj_onI) simp
  then have "card ((\<lambda>ext. name @ ''.'' @ ext) ` set extensions) = card (set extensions)"
    by (rule card_image)
  with d show ?thesis by (simp add: distinct_card)
qed

lemma Mangle_contains:
  assumes "CHR ''.'' \<notin> set name" and "r \<in> Mangle dotted name extensions"
  shows "Contains r name"
proof -
  from assms consider "r = name" | ext where "r = name @ ''.'' @ ext"
    unfolding Mangle_bare [OF assms(1)] by blast
  then show ?thesis
  proof cases
    case 1
    then have "r = [] @ name @ []" by simp
    then show ?thesis unfolding Contains_iff by blast
  next
    case 2
    then have "r = [] @ name @ (''.'' @ ext)" by simp
    then show ?thesis unfolding Contains_iff by blast
  qed
qed

text \<open>
  Claim C5. For a name without the delimiter \<open>.\<close>, \<open>Mangle\<close> is the name together with
  \<open>name.ext\<close> for each extension; every member contains the name; without the name
  there are as many members as extensions when these are distinct; with no extensions the
  result is the name alone; equal inputs give equal results.
\<close>

theorem Mangle_bare_name:
  "CHR ''.'' \<notin> set name \<Longrightarrow>
   Mangle dotted name extensions = {name} \<union> {name @ ''.'' @ ext | ext. ext \<in> set extensions} \<and>
   (\<forall>r \<in> Mangle dotted name extensions. Contains r name) \<and>
   (distinct extensions \<longrightarrow> card (Mangle dotted name extensions - {name}) = length extensions) \<and>
   Mangle dotted name [] = {name} \<and>
   (\<forall>name' extensions'. name' = name \<and> extensions' = extensions \<longrightarrow>
      Mangle dotted name' extensions' = Mangle dotted name extensions)"
proof (intro conjI ballI allI impI)
  assume bare: "CHR ''.'' \<notin> set name"
  note m = Mangle_bare [OF bare]
  show "Mangle dotted name extensions = {name} \<union> {name @ ''.'' @ ext | ext. ext \<in> set extensions}"
    unfolding m by blast
  show "Mangle dotted name [] = {name}"
    by (simp add: m)
  show "Contains r name" if "r \<in> Mangle dotted name extensions" for r
    using bare that by (rule Mangle_contains)
  show "card (Mangle dotted name extensions - {name}) = length extensions" if "distinct extensions"
  proof -
    have "name \<notin> (\<lambda>ext. name @ ''.'' @ ext) ` set extensions" by auto
    then have "Mangle dotted name extensions - {name} = (\<lambda>ext. name @ ''.'' @ ext) ` set extensions"
      unfolding m by blast
    with card_variants [OF that] show ?thesis by simp
  qed
  show "Mangle dotted name' extensions' = Mangle dotted name extensions"
    if "name' = name \<and> extensions' = extensions" for name' extensions'
    using that by simp
qed

theorem Mangle_bare_name_witness:
  "CHR ''.'' \<notin> set ''index'' \<and>
   Mangle (\<lambda>n es. {}) ''index'' [''html'', ''php''] = {''index'', ''index.html'', ''index.php''} \<and>
   Contains ''index.php'' ''index'' \<and>
   card (Mangle (\<lambda>n es. {}) ''index'' [''html'', ''php''] - {''index''}) = 2 \<and>
   Mangle (\<lambda>n es. {}) ''index'' [] = {''index''}"
proof -
  have b: "CHR ''.'' \<notin> set ''index''" by simp
  note t = Mangle_bare_name [OF b, of "\<lambda>n es. {}" "[''html'', ''php'']"]
  have v: "{''index''} \<union> {''index'' @ ''.'' @ ext | ext. ext \<in> set [''html'', ''php'']} =
      {''index'', ''index.html'', ''index.php''}"
    by auto
  have m: "Mangle (\<lambda>n es. {}) ''index'' [''html'', ''php''] =
      {''index'', ''index.html'', ''index.php''}"
    using t [THEN conjunct1] v by simp
  have c: "Contains ''index.php'' ''index''"
    using t [THEN conjunct2, THEN conjunct1] m by simp
  have k: "card (Mangle (\<lambda>n es. {}) ''index'' [''html'', ''php''] - {''index''}) = 2"
    using t [THEN conjunct2, THEN conjunct2, THEN conjunct1] by simp
  have e: "Mangle (\<lambda>n es. {}) ''index'' [] = {''index''}"
    by (rule t [THEN conjunct2, THEN conjunct2, THEN conjunct2, THEN conjunct1])
  show ?thesis
    by (intro conjI) (rule b m c k e)+
qed

text \<open>\<open>TestMangle\<close> passes for any slice that lists the members of such a result.\<close>

lemma TestMangle_passes:
  assumes "set (mangle ''foo'') = Mangle dotted ''foo'' extensions"
  shows "TestMangle mangle = []"
proof -
  have b: "CHR ''.'' \<notin> set ''foo''" by simp
  have "Contains r ''foo''" if "r \<in> set (mangle ''foo'')" for r
    using b that [unfolded assms] by (rule Mangle_contains)
  then show ?thesis
    by (simp add: TestMangle_def Let_def)
qed

lemma addOne_seen: "seen (addOne key q u) = insert (key u) (seen q)"
  by (auto simp: addOne_def)

lemma addOne_pending:
  "pending (addOne key q u) = pending q + (if key u \<in> seen q then 0 else 1)"
  by (simp add: addOne_def)

lemma foldl_addOne:
  "seen (foldl (addOne key) q us) = seen q \<union> key ` set us \<and>
   pending (foldl (addOne key) q us) = pending q + card (key ` set us - seen q)"
proof (induction us arbitrary: q)
  case Nil
  show ?case by simp
next
  case (Cons u us)
  have fin: "finite (key ` set us - insert (key u) (seen q))" by simp
  show ?case
  proof (cases "key u \<in> seen q")
    case True
    then have "key ` set (u # us) - seen q = key ` set us - seen q" by auto
    moreover from True have "addOne key q u = q" by (simp add: addOne_def)
    ultimately show ?thesis using Cons.IH [of q] by auto
  next
    case False
    then have "key ` set (u # us) - seen q = insert (key u) (key ` set us - insert (key u) (seen q))"
      by auto
    then have "card (key ` set (u # us) - seen q) = Suc (card (key ` set us - insert (key u) (seen q)))"
      using fin by simp
    then show ?thesis
      using Cons.IH [of "addOne key q u"] False by (auto simp: addOne_seen addOne_pending)
  qed
qed

lemma addCalls_concat: "addCalls key calls q = foldl (addOne key) q (concat calls)"
  by (induction calls arbitrary: q) (simp_all add: addCalls_def WorkQueue_Add_def)

text \<open>
  Claim C8. After a sequence of \<open>Add\<close> calls the pending count has grown by the number of
  distinct keys among the added URLs that were not seen before (from the empty queue: the
  number of distinct keys), and the seen set has grown by those keys. An \<open>Add\<close> of a URL
  whose key is seen leaves the queue as it was.
\<close>

theorem Add_dedup:
  "pending (addCalls key calls q) = pending q + card (key ` set (concat calls) - seen q) \<and>
   seen (addCalls key calls q) = seen q \<union> key ` set (concat calls) \<and>
   pending (addCalls key calls emptyQueue) = card (key ` set (concat calls)) \<and>
   (key u \<in> seen q \<longrightarrow> WorkQueue_Add key [u] q = q)"
  using foldl_addOne [of key q "concat calls"] foldl_addOne [of key emptyQueue "concat calls"]
  by (simp add: addCalls_concat WorkQueue_Add_def addOne_def emptyQueue_def)

theorem Add_dedup_witness:
  "pending (addCalls (\<lambda>u. u) [[''/a'', ''/b''], [''/a''], [''/b'', ''/c'', ''/a'']] emptyQueue) = 3 \<and>
   seen (addCalls (\<lambda>u. u) [[''/a'', ''/b''], [''/a''], [''/b'', ''/c'', ''/a'']] emptyQueue) =
     {''/a'', ''/b'', ''/c''} \<and>
   ''/a'' \<in> seen (WorkQueue_Add (\<lambda>u. u) [''/a'', ''/b''] emptyQueue) \<and>
   WorkQueue_Add (\<lambda>u. u) [''/a''] (WorkQueue_Add (\<lambda>u. u) [''/a'', ''/b''] emptyQueue) =
     WorkQueue_Add (\<lambda>u. u) [''/a'', ''/b''] emptyQueue"
proof -
  note t = Add_dedup [of "\<lambda>u. u" "[[''/a'', ''/b''], [''/a''], [''/b'', ''/c'', ''/a'']]"
      "emptyQueue :: string WorkQueue" "''/a''"]
  note t' = Add_dedup [of "\<lambda>u. u" "[]"
      "WorkQueue_Add (\<lambda>u. u) [''/a'', ''/b''] (emptyQueue :: string WorkQueue)" "''/a''"]
  have s: "''/a'' \<in> seen (WorkQueue_Add (\<lambda>u. u) [''/a'', ''/b''] (emptyQueue :: string WorkQueue))"
    by (simp add: WorkQueue_Add_def addOne_def emptyQueue_def)
  have p: "pending (addCalls (\<lambda>u. u) [[''/a'', ''/b''], [''/a''], [''/b'', ''/c'', ''/a'']]
          (emptyQueue :: string WorkQueue)) = 3"
    using t [THEN conjunct2, THEN conjunct2, THEN conjunct1] by (simp add: card_insert_if)
  have n: "seen (addCalls (\<lambda>u. u) [[''/a'', ''/b''], [''/a''], [''/b'', ''/c'', ''/a'']]
          (emptyQueue :: string WorkQueue)) = {''/a'', ''/b'', ''/c''}"
  proof -
    have "(\<lambda>u. u) ` set (concat [[''/a'', ''/b''], [''/a''], [''/b'', ''/c'', ''/a'']]) =
        {''/a'', ''/b'', ''/c''}"
      by code_simp
    with t [THEN conjunct2, THEN conjunct1] show ?thesis
      by (simp only: emptyQueue_def WorkQueue.simps Un_empty_left)
  qed
  have d: "WorkQueue_Add (\<lambda>u. u) [''/a''] (WorkQueue_Add (\<lambda>u. u) [''/a'', ''/b''] emptyQueue) =
     WorkQueue_Add (\<lambda>u. u) [''/a'', ''/b''] (emptyQueue :: string WorkQueue)"
    using t' [THEN conjunct2, THEN conjunct2, THEN conjunct2] s by (rule mp)
  show ?thesis
    by (intro conjI) (rule p n s d)+
qed

end
